theory Spec2Isabelle
  imports Main "HOL-Library.Word"
begin

section \<open>CppVault: the password vault and its envelope\<close>

text \<open>
  A shallow embedding of \<^verbatim>\<open>Crypto.cpp\<close>, \<^verbatim>\<open>Vault.cpp\<close> and the parts of
  \<^verbatim>\<open>main.cpp\<close> that call them. A \<^verbatim>\<open>std::string\<close> is a \<open>string\<close>, a vector of
  \<^verbatim>\<open>unsigned char\<close> is a list of 8-bit words, \<^verbatim>\<open>uint64_t\<close> is a 64-bit word. A C++
  exception is the \<open>Inl\<close> of a sum, so a function that can throw returns \<open>exn + 'a\<close>.
\<close>

subsection \<open>Values\<close>

type_synonym uchar = "8 word"
type_synonym uint32_t = "32 word"
type_synonym uint64_t = "64 word"

text \<open>The exceptions that can travel through the modelled code.\<close>

datatype exn =
    runtime_error string
  | length_error
  | json_parse_error
  | json_type_error nat
  | json_out_of_range nat

text \<open>\<^verbatim>\<open>catch (const json::exception&)\<close> catches exactly the library's own exceptions.\<close>

fun is_json_exception :: "exn \<Rightarrow> bool" where
  "is_json_exception json_parse_error = True"
| "is_json_exception (json_type_error n) = True"
| "is_json_exception (json_out_of_range n) = True"
| "is_json_exception e = False"

text \<open>
  The casts \<^verbatim>\<open>(const unsigned char*)data.c_str()\<close> and
  \<^verbatim>\<open>std::string((char*)p, n)\<close>: the same bytes, read at the other type.
\<close>

definition to_uchars :: "string \<Rightarrow> uchar list" where
  "to_uchars s = map of_char s"

definition to_chars :: "uchar list \<Rightarrow> string" where
  "to_chars bs = map (\<lambda>b. char_of (unat b)) bs"

subsection \<open>Vault.h: the entry and the vault\<close>

record PasswordEntry =
  id' :: uint64_t
  title :: string
  username :: string
  password :: string
  url :: string
  notes' :: string

record Vault =
  m_entries :: "PasswordEntry list"

definition clear :: "Vault \<Rightarrow> Vault" where
  "clear v = v\<lparr>m_entries := []\<rparr>"

definition getEntries :: "Vault \<Rightarrow> PasswordEntry list" where
  "getEntries v = m_entries v"

text \<open>\<^verbatim>\<open>m_entries.push_back(entry)\<close>, with no look at the identifiers already stored.\<close>

definition addEntry :: "PasswordEntry \<Rightarrow> Vault \<Rightarrow> Vault" where
  "addEntry entry v = v\<lparr>m_entries := m_entries v @ [entry]\<rparr>"

text \<open>
  \<^verbatim>\<open>std::find_if\<close> and \<^verbatim>\<open>std::remove_if\<close> on a vector, positions as indices:
  \<open>find_if\<close> gives the index of the first element satisfying the predicate, or the length
  when there is none; \<open>remove_if\<close> then moves every later element that is kept down to
  the write position \<open>result\<close> and returns the vector together with the new logical end.
\<close>

fun find_if :: "('a \<Rightarrow> bool) \<Rightarrow> 'a list \<Rightarrow> nat" where
  "find_if p [] = 0"
| "find_if p (x # xs) = (if p x then 0 else Suc (find_if p xs))"

function remove_if_loop :: "('a \<Rightarrow> bool) \<Rightarrow> 'a list \<Rightarrow> nat \<Rightarrow> nat \<Rightarrow> 'a list \<times> nat" where
  "remove_if_loop p xs result first =
     (if first < length xs
      then (if \<not> p (xs ! first)
            then remove_if_loop p (xs[result := xs ! first]) (Suc result) (Suc first)
            else remove_if_loop p xs result (Suc first))
      else (xs, result))"
  by pat_completeness auto
termination
  by (relation "measure (\<lambda>(p, xs, result, first). length xs - first)") auto

declare remove_if_loop.simps [simp del]

definition remove_if :: "('a \<Rightarrow> bool) \<Rightarrow> 'a list \<Rightarrow> 'a list \<times> nat" where
  "remove_if p xs =
     (let first = find_if p xs
      in if first = length xs then (xs, first)
         else remove_if_loop p xs first (Suc first))"

text \<open>\<^verbatim>\<open>v.erase(it, v.end())\<close>: everything from the position on is dropped.\<close>

definition erase_to_end :: "'a list \<times> nat \<Rightarrow> 'a list" where
  "erase_to_end r = take (snd r) (fst r)"

definition deleteEntry :: "uint64_t \<Rightarrow> Vault \<Rightarrow> Vault" where
  "deleteEntry i v =
     v\<lparr>m_entries := erase_to_end (remove_if (\<lambda>entry. id' entry = i) (m_entries v))\<rparr>"

text \<open>
  \<open>getEntryForEdit\<close> returns a pointer to the first entry with the identifier, or
  \<^verbatim>\<open>nullptr\<close>. The pointer is the index of the entry in \<open>m_entries\<close>.
\<close>

fun getEntryForEdit_loop :: "uint64_t \<Rightarrow> PasswordEntry list \<Rightarrow> nat option" where
  "getEntryForEdit_loop i [] = None"
| "getEntryForEdit_loop i (entry # es) =
     (if id' entry = i then Some 0 else map_option Suc (getEntryForEdit_loop i es))"

definition getEntryForEdit :: "uint64_t \<Rightarrow> Vault \<Rightarrow> nat option" where
  "getEntryForEdit i v = getEntryForEdit_loop i (m_entries v)"

text \<open>
  The "Save" button of the Add/Edit popup in \<open>RenderMainVault\<close>: the only place of the
  program that calls \<open>addEntry\<close>. It looks the identifier up first and overwrites the
  entry found.
\<close>

definition popup_Save :: "PasswordEntry \<Rightarrow> Vault \<Rightarrow> Vault" where
  "popup_Save currentEntry v =
     (case getEntryForEdit (id' currentEntry) v of
        Some existing \<Rightarrow> v\<lparr>m_entries := (m_entries v)[existing := currentEntry]\<rparr>
      | None \<Rightarrow> addEntry currentEntry v)"

text \<open>Sequences of operations on a vault, applied from left to right.\<close>

datatype vault_call = Add PasswordEntry | Delete uint64_t

fun run_calls :: "vault_call list \<Rightarrow> Vault \<Rightarrow> Vault" where
  "run_calls [] v = v"
| "run_calls (Add entry # cs) v = run_calls cs (addEntry entry v)"
| "run_calls (Delete i # cs) v = run_calls cs (deleteEntry i v)"

datatype ui_action = SaveEntry PasswordEntry | DeleteSelected uint64_t

fun run_ui :: "ui_action list \<Rightarrow> Vault \<Rightarrow> Vault" where
  "run_ui [] v = v"
| "run_ui (SaveEntry entry # as) v = run_ui as (popup_Save entry v)"
| "run_ui (DeleteSelected i # as) v = run_ui as (deleteEntry i v)"

definition unique_ids :: "Vault \<Rightarrow> bool" where
  "unique_ids v = distinct (map id' (m_entries v))"

definition empty_vault :: Vault where
  "empty_vault = \<lparr>m_entries = []\<rparr>"

subsection \<open>libsodium, as Crypto.cpp uses it\<close>

text \<open>
  Modelled from the spec: the four length constants of \<^verbatim>\<open>sodium.h\<close>, which is not part of
  the repository. Section 6 of the specification gives the lengths of the pairing used
  here (Argon2id with XSalsa20-Poly1305): a 16-byte salt, a 24-byte nonce, a 16-byte tag;
  the key has 32 bytes.
\<close>

definition crypto_pwhash_SALTBYTES :: nat where
  "crypto_pwhash_SALTBYTES = 16"

definition crypto_secretbox_NONCEBYTES :: nat where
  "crypto_secretbox_NONCEBYTES = 24"

definition crypto_secretbox_MACBYTES :: nat where
  "crypto_secretbox_MACBYTES = 16"

definition crypto_secretbox_KEYBYTES :: nat where
  "crypto_secretbox_KEYBYTES = 32"

text \<open>
  The library's primitives are parameters of the model. \<open>random_byte k i\<close> is byte \<open>i\<close>
  of the output of the \<open>k\<close>-th call to the random source, \<open>random_uniform k n\<close> is what
  \<^verbatim>\<open>randombytes_uniform(n)\<close> returns when it is that call. \<open>pwhash_fails k\<close> says whether
  the \<open>k\<close>-th call of \<^verbatim>\<open>crypto_pwhash\<close> runs out of memory (a non-zero return);
  \<open>pwhash_key\<close> is the key it derives otherwise. \<open>secretbox_easy m n k\<close> is the
  sealed message, \<open>secretbox_open_easy c n k\<close> the opened one, \<open>None\<close> for the return
  value \<open>-1\<close>.
\<close>

record sodium =
  random_byte :: "nat \<Rightarrow> nat \<Rightarrow> uchar"
  random_uniform :: "nat \<Rightarrow> uint32_t \<Rightarrow> uint32_t"
  pwhash_fails :: "nat \<Rightarrow> bool"
  pwhash_key :: "string \<Rightarrow> uchar list \<Rightarrow> uchar list"
  secretbox_easy :: "uchar list \<Rightarrow> uchar list \<Rightarrow> uchar list \<Rightarrow> uchar list"
  secretbox_open_easy :: "uchar list \<Rightarrow> uchar list \<Rightarrow> uchar list \<Rightarrow> uchar list option"

text \<open>What the library has been asked so far: calls to the random source, calls to the
  key derivation.\<close>

record sodium_state =
  rand_calls :: nat
  pwhash_calls :: nat

definition randombytes_buf :: "sodium \<Rightarrow> nat \<Rightarrow> sodium_state \<Rightarrow> uchar list \<times> sodium_state" where
  "randombytes_buf lib n st =
     (map (random_byte lib (rand_calls st)) [0..<n], st\<lparr>rand_calls := Suc (rand_calls st)\<rparr>)"

definition randombytes_uniform :: "sodium \<Rightarrow> uint32_t \<Rightarrow> sodium_state \<Rightarrow> uint32_t \<times> sodium_state" where
  "randombytes_uniform lib upper_bound st =
     (random_uniform lib (rand_calls st) upper_bound, st\<lparr>rand_calls := Suc (rand_calls st)\<rparr>)"

definition crypto_pwhash ::
  "sodium \<Rightarrow> string \<Rightarrow> uchar list \<Rightarrow> sodium_state \<Rightarrow> uchar list option \<times> sodium_state" where
  "crypto_pwhash lib passwd salt st =
     (if pwhash_fails lib (pwhash_calls st) then None else Some (pwhash_key lib passwd salt),
      st\<lparr>pwhash_calls := Suc (pwhash_calls st)\<rparr>)"

text \<open>
  \<^verbatim>\<open>std::vector<unsigned char> v(n)\<close> throws \<^verbatim>\<open>std::length_error\<close> when \<open>n\<close> exceeds
  \<^verbatim>\<open>max_size()\<close>, which is \<^verbatim>\<open>PTRDIFF_MAX\<close> on a 64-bit target.
\<close>

definition vector_max_size :: nat where
  "vector_max_size = 2 ^ 63 - 1"

definition size_t_sub :: "nat \<Rightarrow> nat \<Rightarrow> nat" where
  \<comment> \<open>subtraction of two \<^verbatim>\<open>size_t\<close> values, each below \<open>2 ^ 64\<close>: it wraps around\<close>
  "size_t_sub a b = (a + 2 ^ 64 - b) mod 2 ^ 64"

subsection \<open>Crypto.cpp\<close>

definition encrypt ::
  "sodium \<Rightarrow> string \<Rightarrow> string \<Rightarrow> sodium_state \<Rightarrow> (exn + uchar list) \<times> sodium_state" where
  "encrypt lib data passwd st =
     (let (salt, st1) = randombytes_buf lib crypto_pwhash_SALTBYTES st;
          (key, st2) = crypto_pwhash lib passwd salt st1
      in case key of
           None \<Rightarrow>
             (Inl (runtime_error ''Failed to derive encryption key (out of memory?)''), st2)
         | Some key \<Rightarrow>
             let (nonce, st3) = randombytes_buf lib crypto_secretbox_NONCEBYTES st2
             in if length data + crypto_secretbox_MACBYTES > vector_max_size
                then (Inl length_error, st3)
                else let ciphertext = secretbox_easy lib (to_uchars data) nonce key;
                         encrypted_blob = salt @ nonce @ ciphertext
                     in (Inr encrypted_blob, st3))"

definition decrypt ::
  "sodium \<Rightarrow> uchar list \<Rightarrow> string \<Rightarrow> sodium_state \<Rightarrow> (exn + string option) \<times> sodium_state" where
  "decrypt lib encrypted_data passwd st =
     (if length encrypted_data < crypto_pwhash_SALTBYTES + crypto_secretbox_NONCEBYTES
      then (Inr None, st)
      else
        let salt = take crypto_pwhash_SALTBYTES encrypted_data;
            nonce = take crypto_secretbox_NONCEBYTES (drop crypto_pwhash_SALTBYTES encrypted_data);
            ciphertext_len =
              length encrypted_data - crypto_pwhash_SALTBYTES - crypto_secretbox_NONCEBYTES;
            ciphertext =
              take ciphertext_len
                (drop (crypto_pwhash_SALTBYTES + crypto_secretbox_NONCEBYTES) encrypted_data);
            (key, st1) = crypto_pwhash lib passwd salt st
        in case key of
             None \<Rightarrow> (Inr None, st1)
           | Some key \<Rightarrow>
               if size_t_sub ciphertext_len crypto_secretbox_MACBYTES > vector_max_size
               then (Inl length_error, st1)
               else (case secretbox_open_easy lib ciphertext nonce key of
                       None \<Rightarrow> (Inr None, st1)
                     | Some decrypted_data \<Rightarrow> (Inr (Some (to_chars decrypted_data)), st1)))"

subsection \<open>nlohmann/json, as Vault.cpp uses it\<close>

text \<open>
  A JSON value has the library's eight kinds. Reading and printing JSON text are
  parameters of the model, as is the conversion of a floating-point number to
  \<^verbatim>\<open>uint64_t\<close>; access by key and the typed reads are written out with the exceptions
  the library documents for them (304 and 403 for \<^verbatim>\<open>at\<close>, 302 for a read at the wrong
  type).
\<close>

datatype json =
    J_null
  | J_boolean bool
  | J_number_integer uint64_t
  | J_number_unsigned uint64_t
  | J_number_float uint64_t
  | J_string string
  | J_array "json list"
  | J_object "(string \<times> json) list"

record json_lib =
  parse :: "string \<Rightarrow> exn + json"
  dump :: "nat \<Rightarrow> json \<Rightarrow> exn + string"
  float_to_uint64 :: "uint64_t \<Rightarrow> uint64_t"

fun at :: "json \<Rightarrow> string \<Rightarrow> exn + json" where
  "at (J_object members) key =
     (case map_of members key of None \<Rightarrow> Inl (json_out_of_range 403) | Some j \<Rightarrow> Inr j)"
| "at j key = Inl (json_type_error 304)"

fun get_to_uint64 :: "json_lib \<Rightarrow> json \<Rightarrow> exn + uint64_t" where
  "get_to_uint64 js (J_number_unsigned n) = Inr n"
| "get_to_uint64 js (J_number_integer n) = Inr n"
| "get_to_uint64 js (J_number_float x) = Inr (float_to_uint64 js x)"
| "get_to_uint64 js j = Inl (json_type_error 302)"

fun get_to_string :: "json \<Rightarrow> exn + string" where
  "get_to_string (J_string s) = Inr s"
| "get_to_string j = Inl (json_type_error 302)"

text \<open>Sequencing of calls that can throw: the first exception ends the sequence.\<close>

definition and_then :: "exn + 'a \<Rightarrow> ('a \<Rightarrow> exn + 'b) \<Rightarrow> exn + 'b" where
  "and_then r f = (case r of Inl e \<Rightarrow> Inl e | Inr x \<Rightarrow> f x)"

subsection \<open>Vault.cpp\<close>

definition to_json :: "PasswordEntry \<Rightarrow> json" where
  "to_json p = J_object
     [(''id'', J_number_unsigned (id' p)),
      (''title'', J_string (title p)),
      (''username'', J_string (username p)),
      (''password'', J_string (password p)),
      (''url'', J_string (url p)),
      (''notes'', J_string (notes' p))]"

definition from_json :: "json_lib \<Rightarrow> json \<Rightarrow> exn + PasswordEntry" where
  "from_json js j =
     and_then (and_then (at j ''id'') (get_to_uint64 js)) (\<lambda>p_id.
     and_then (and_then (at j ''title'') get_to_string) (\<lambda>p_title.
     and_then (and_then (at j ''username'') get_to_string) (\<lambda>p_username.
     and_then (and_then (at j ''password'') get_to_string) (\<lambda>p_password.
     and_then (and_then (at j ''url'') get_to_string) (\<lambda>p_url.
     and_then (and_then (at j ''notes'') get_to_string) (\<lambda>p_notes.
       Inr \<lparr>id' = p_id, title = p_title, username = p_username, password = p_password,
            url = p_url, notes' = p_notes\<rparr>))))))"

text \<open>\<^verbatim>\<open>json j = m_entries\<close> and \<^verbatim>\<open>j.get<std::vector<PasswordEntry>>()\<close>.\<close>

definition entries_to_json :: "PasswordEntry list \<Rightarrow> json" where
  "entries_to_json es = J_array (map to_json es)"

fun get_entries_loop :: "json_lib \<Rightarrow> json list \<Rightarrow> exn + PasswordEntry list" where
  "get_entries_loop js [] = Inr []"
| "get_entries_loop js (j # rest) =
     and_then (from_json js j) (\<lambda>p.
     and_then (get_entries_loop js rest) (\<lambda>ps. Inr (p # ps)))"

fun get_entries :: "json_lib \<Rightarrow> json \<Rightarrow> exn + PasswordEntry list" where
  "get_entries js (J_array elements) = get_entries_loop js elements"
| "get_entries js j = Inl (json_type_error 302)"

text \<open>
  The files: \<open>contents fs path\<close> is \<open>None\<close> when the path cannot be opened for reading,
  \<open>unwritable fs path\<close> holds when it cannot be opened for writing.
\<close>

record filesystem =
  contents :: "string \<Rightarrow> uchar list option"
  unwritable :: "string \<Rightarrow> bool"

definition load ::
  "sodium \<Rightarrow> json_lib \<Rightarrow> filesystem \<Rightarrow> string \<Rightarrow> string \<Rightarrow> Vault \<Rightarrow> sodium_state
     \<Rightarrow> (exn + bool) \<times> Vault \<times> sodium_state" where
  "load lib js fs filepath passwd v st =
     (case contents fs filepath of
        None \<Rightarrow> (Inr False, v, st)
      | Some encrypted_data \<Rightarrow>
          if encrypted_data = [] then (Inr False, v, st)
          else
            (case decrypt lib encrypted_data passwd st of
               (Inl e, st1) \<Rightarrow> (Inl e, v, st1)
             | (Inr None, st1) \<Rightarrow> (Inr False, v, st1)
             | (Inr (Some decrypted_json_string), st1) \<Rightarrow>
                 (case and_then (parse js decrypted_json_string) (get_entries js) of
                    Inl e \<Rightarrow> if is_json_exception e then (Inr False, v, st1) else (Inl e, v, st1)
                  | Inr es \<Rightarrow> (Inr True, v\<lparr>m_entries := es\<rparr>, st1))))"

definition save ::
  "sodium \<Rightarrow> json_lib \<Rightarrow> string \<Rightarrow> string \<Rightarrow> Vault \<Rightarrow> filesystem \<Rightarrow> sodium_state
     \<Rightarrow> (exn + bool) \<times> filesystem \<times> sodium_state" where
  "save lib js filepath passwd v fs st =
     (case dump js 4 (entries_to_json (m_entries v)) of
        Inl e \<Rightarrow> (Inl e, fs, st)
      | Inr json_string \<Rightarrow>
          (case encrypt lib json_string passwd st of
             (Inl e, st1) \<Rightarrow> (Inr False, fs, st1)
           | (Inr encrypted_data, st1) \<Rightarrow>
               if unwritable fs filepath then (Inr False, fs, st1)
               else (Inr True, fs\<lparr>contents := (contents fs)(filepath \<mapsto> encrypted_data)\<rparr>, st1)))"

subsection \<open>main.cpp\<close>

datatype AppState = Locked | Unlocked

record ui =
  currentState :: AppState
  loginError :: string

text \<open>
  The "Unlock" button of \<open>RenderLoginScreen\<close>. When \<open>load\<close> returns false the path is
  opened a second time, and only that tells a missing file from one that did not decrypt.
  An exception out of \<open>load\<close> is caught nowhere.
\<close>

definition RenderLoginScreen_Unlock ::
  "sodium \<Rightarrow> json_lib \<Rightarrow> filesystem \<Rightarrow> string \<Rightarrow> string \<Rightarrow> ui \<Rightarrow> Vault \<Rightarrow> sodium_state
     \<Rightarrow> exn + ui \<times> Vault \<times> sodium_state" where
  "RenderLoginScreen_Unlock lib js fs vaultFilepath passwordBuffer u vault st =
     (case load lib js fs vaultFilepath passwordBuffer vault st of
        (Inl e, vault1, st1) \<Rightarrow> Inl e
      | (Inr True, vault1, st1) \<Rightarrow>
          Inr (u\<lparr>currentState := Unlocked, loginError := []\<rparr>, vault1, st1)
      | (Inr False, vault1, st1) \<Rightarrow>
          (case contents fs vaultFilepath of
             None \<Rightarrow>
               Inr (u\<lparr>currentState := Unlocked,
                      loginError := ''New vault created. Click 'Save' to protect it.''\<rparr>,
                    vault1, st1)
           | Some f \<Rightarrow>
               Inr (u\<lparr>loginError := ''Wrong password or corrupt vault file.''\<rparr>, vault1, st1)))"

text \<open>
  \<open>GeneratePassword\<close>. \<^verbatim>\<open>password.reserve(length)\<close> converts the \<^verbatim>\<open>int\<close> to
  \<^verbatim>\<open>size_t\<close> and throws \<^verbatim>\<open>std::length_error\<close> beyond the string's \<^verbatim>\<open>max_size()\<close>,
  which no implementation puts above \<^verbatim>\<open>PTRDIFF_MAX\<close>.
\<close>

definition UPPERCASE :: string where
  "UPPERCASE = ''ABCDEFGHIJKLMNOPQRSTUVWXYZ''"

definition LOWERCASE :: string where
  "LOWERCASE = ''abcdefghijklmnopqrstuvwxyz''"

definition NUMBERS :: string where
  "NUMBERS = ''0123456789''"

definition SYMBOLS :: string where
  "SYMBOLS = ''!@#$%^&*()_+-=[]{};:,.<>/?''"

definition char_set_of :: "bool \<Rightarrow> bool \<Rightarrow> bool \<Rightarrow> bool \<Rightarrow> string" where
  "char_set_of use_upper use_lower use_numbers use_symbols =
     (if use_upper then UPPERCASE else []) @ (if use_lower then LOWERCASE else [])
     @ (if use_numbers then NUMBERS else []) @ (if use_symbols then SYMBOLS else [])"

function GeneratePassword_loop ::
  "sodium \<Rightarrow> string \<Rightarrow> int \<Rightarrow> int \<Rightarrow> string \<Rightarrow> sodium_state \<Rightarrow> string \<times> sodium_state" where
  "GeneratePassword_loop lib char_set len i passwd st =
     (if i < len
      then let (index, st1) = randombytes_uniform lib (of_nat (length char_set)) st
           in GeneratePassword_loop lib char_set len (i + 1) (passwd @ [char_set ! unat index]) st1
      else (passwd, st))"
  by pat_completeness auto
termination
  by (relation "measure (\<lambda>(lib, char_set, len, i, passwd, st). nat (len - i))")
     (auto simp: randombytes_uniform_def)

declare GeneratePassword_loop.simps [simp del]

definition GeneratePassword ::
  "sodium \<Rightarrow> int \<Rightarrow> bool \<Rightarrow> bool \<Rightarrow> bool \<Rightarrow> bool \<Rightarrow> sodium_state
     \<Rightarrow> (exn + string) \<times> sodium_state" where
  "GeneratePassword lib len use_upper use_lower use_numbers use_symbols st =
     (let char_set = char_set_of use_upper use_lower use_numbers use_symbols
      in if char_set = [] then (Inr ''Invalid settings'', st)
         else if nat (len mod 2 ^ 64) > vector_max_size then (Inl length_error, st)
         else let (passwd, st1) = GeneratePassword_loop lib char_set len 0 [] st
              in (Inr passwd, st1))"

subsection \<open>Sample data\<close>

text \<open>Three entries for running the model; two of them share the identifier 1.\<close>

definition entry_mail :: PasswordEntry where
  "entry_mail = \<lparr>id' = 1, title = ''mail'', username = ''ann'', password = ''pw1'',
     url = ''m.example'', notes' = []\<rparr>"

definition entry_mail_edited :: PasswordEntry where
  "entry_mail_edited = \<lparr>id' = 1, title = ''mail'', username = ''ann'', password = ''pw2'',
     url = ''m.example'', notes' = ''changed''\<rparr>"

definition entry_bank :: PasswordEntry where
  "entry_bank = \<lparr>id' = 2, title = ''bank'', username = ''ann'', password = ''pw3'',
     url = ''b.example'', notes' = []\<rparr>"

text \<open>
  A stand-in for the library's primitives, to run the model on concrete inputs. It is not
  cryptography: the tag is the first 16 bytes of the key and the message is not hidden.
  It does what the code relies on (a sealed message is 16 bytes longer and opens under the
  key and nonce it was sealed with, another key is refused) and nothing more.
\<close>

definition toy_tag :: "uchar list \<Rightarrow> uchar list" where
  "toy_tag key = take 16 (key @ replicate 16 0)"

definition toy_sodium :: sodium where
  "toy_sodium =
     \<lparr>random_byte = (\<lambda>k i. of_nat (k + i)),
      random_uniform = (\<lambda>k n. if n = 0 then 0 else of_nat k mod n),
      pwhash_fails = (\<lambda>k. False),
      pwhash_key = (\<lambda>passwd salt. take 32 (to_uchars passwd @ salt @ replicate 32 0)),
      secretbox_easy = (\<lambda>m n k. toy_tag k @ m),
      secretbox_open_easy =
        (\<lambda>c n k. if 16 \<le> length c \<and> take 16 c = toy_tag k then Some (drop 16 c) else None)\<rparr>"

text \<open>The same library on a machine where every key derivation runs out of memory.\<close>

definition toy_sodium_no_memory :: sodium where
  "toy_sodium_no_memory = toy_sodium\<lparr>pwhash_fails := (\<lambda>k. True)\<rparr>"

definition fresh :: sodium_state where
  "fresh = \<lparr>rand_calls = 0, pwhash_calls = 0\<rparr>"

text \<open>
  A stand-in for the JSON library that knows one document: it prints the two sample
  entries as one fixed text and reads that text back. Every other text is a parse error,
  every other value fails to print.
\<close>

definition toy_json :: json_lib where
  "toy_json =
     \<lparr>parse = (\<lambda>s. if s = ''[mail, bank]'' then Inr (entries_to_json [entry_mail, entry_bank])
                    else Inl json_parse_error),
      dump = (\<lambda>indent j. if j = entries_to_json [entry_mail, entry_bank]
                          then Inr ''[mail, bank]'' else Inl (json_type_error 316)),
      float_to_uint64 = (\<lambda>x. x)\<rparr>"

definition no_files :: filesystem where
  "no_files = \<lparr>contents = (\<lambda>path. None), unwritable = (\<lambda>path. False)\<rparr>"

text \<open>The envelope of \<open>''hello''\<close> under the password \<open>''correct-password''\<close>.\<close>

definition hello_envelope :: "uchar list" where
  "hello_envelope =
     (case fst (encrypt toy_sodium ''hello'' ''correct-password'' fresh) of
        Inr blob \<Rightarrow> blob | Inl e \<Rightarrow> [])"

text \<open>A vault with the two sample entries, and the files after saving it.\<close>

definition sample_vault :: Vault where
  "sample_vault = \<lparr>m_entries = [entry_mail, entry_bank]\<rparr>"

definition saved_files :: filesystem where
  "saved_files =
     fst (snd (save toy_sodium toy_json ''my_vault.db'' ''correct-password'' sample_vault
                 no_files fresh))"

section \<open>Properties\<close>

subsection \<open>Deleting\<close>

lemma find_if_le: "find_if p xs \<le> length xs"
  by (induction xs) auto

lemma find_if_take: "filter (\<lambda>x. \<not> p x) (take (find_if p xs) xs) = take (find_if p xs) xs"
  by (induction xs) auto

lemma find_if_hit: "find_if p xs < length xs \<Longrightarrow> p (xs ! find_if p xs)"
  by (induction xs) (auto split: if_splits)

lemma find_if_none: "find_if p xs = length xs \<Longrightarrow> filter (\<lambda>x. \<not> p x) xs = xs"
  by (induction xs) (auto split: if_splits)

lemma remove_if_loop_filter:
  "result \<le> first \<Longrightarrow>
   erase_to_end (remove_if_loop p xs result first) =
     take result xs @ filter (\<lambda>x. \<not> p x) (drop first xs)"
proof (induction p xs result first rule: remove_if_loop.induct)
  case (1 p xs result first)
  show ?case
  proof (cases "first < length xs")
    case False
    then show ?thesis
      by (subst remove_if_loop.simps) (simp add: erase_to_end_def)
  next
    case inside: True
    have dr: "drop first xs = xs ! first # drop (Suc first) xs"
      using inside by (simp add: Cons_nth_drop_Suc)
    show ?thesis
    proof (cases "p (xs ! first)")
      case True
      have "erase_to_end (remove_if_loop p xs result first)
            = erase_to_end (remove_if_loop p xs result (Suc first))"
        using inside True by (subst remove_if_loop.simps) simp
      also have "\<dots> = take result xs @ filter (\<lambda>x. \<not> p x) (drop (Suc first) xs)"
        using "1.IH"(2) [OF inside] True "1.prems" by simp
      finally show ?thesis using True dr by simp
    next
      case False
      let ?ys = "xs[result := xs ! first]"
      have rl: "result < length xs" using inside "1.prems" by simp
      have "erase_to_end (remove_if_loop p xs result first)
            = erase_to_end (remove_if_loop p ?ys (Suc result) (Suc first))"
        using inside False by (subst remove_if_loop.simps) simp
      also have "\<dots> = take (Suc result) ?ys @ filter (\<lambda>x. \<not> p x) (drop (Suc first) ?ys)"
        using "1.IH"(1) [OF inside False] "1.prems" by simp
      also have "take (Suc result) ?ys = take result xs @ [xs ! first]"
        using rl by (simp add: take_Suc_conv_app_nth)
      also have "drop (Suc first) ?ys = drop (Suc first) xs"
        using "1.prems" by simp
      finally show ?thesis using False dr by simp
    qed
  qed
qed

lemma remove_if_filter: "erase_to_end (remove_if p xs) = filter (\<lambda>x. \<not> p x) xs"
proof (cases "find_if p xs = length xs")
  case True
  then show ?thesis
    by (simp add: remove_if_def erase_to_end_def find_if_none)
next
  case False
  then have lt: "find_if p xs < length xs"
    using find_if_le [of p xs] by simp
  let ?k = "find_if p xs"
  have "erase_to_end (remove_if p xs) = take ?k xs @ filter (\<lambda>x. \<not> p x) (drop (Suc ?k) xs)"
    using False by (simp add: remove_if_def Let_def remove_if_loop_filter)
  also have "\<dots> = filter (\<lambda>x. \<not> p x) (take ?k xs) @ filter (\<lambda>x. \<not> p x) (xs ! ?k # drop (Suc ?k) xs)"
    using find_if_hit [OF lt] by (simp add: find_if_take)
  also have "\<dots> = filter (\<lambda>x. \<not> p x) (take ?k xs @ drop ?k xs)"
    using lt by (simp add: Cons_nth_drop_Suc del: append_take_drop_id)
  finally show ?thesis by (simp only: append_take_drop_id)
qed

lemma deleteEntry_filter:
  "m_entries (deleteEntry i v) = filter (\<lambda>entry. id' entry \<noteq> i) (m_entries v)"
  by (simp add: deleteEntry_def remove_if_filter)

text \<open>
  C10. For every vault and every identifier, \<open>deleteEntry\<close> removes every entry with
  that identifier (all of them, when \<open>addEntry\<close> has stored duplicates), keeps the other
  entries in their order, and leaves the vault as it is when no entry has the identifier.
  The entries left are exactly the stable filter of the entries before.
\<close>

theorem deleteEntry_removes_all_keeps_order:
  "m_entries (deleteEntry i v) = filter (\<lambda>entry. id' entry \<noteq> i) (m_entries v)
   \<and> i \<notin> id' ` set (m_entries (deleteEntry i v))
   \<and> (i \<notin> id' ` set (m_entries v) \<longrightarrow> deleteEntry i v = v)"
proof -
  have eq: "m_entries (deleteEntry i v) = filter (\<lambda>entry. id' entry \<noteq> i) (m_entries v)"
    by (rule deleteEntry_filter)
  have gone: "i \<notin> id' ` set (m_entries (deleteEntry i v))"
    unfolding eq by auto
  have same: "deleteEntry i v = v" if "i \<notin> id' ` set (m_entries v)"
  proof -
    have "filter (\<lambda>entry. id' entry \<noteq> i) (m_entries v) = m_entries v"
      using that by (auto simp: filter_id_conv)
    then have "m_entries (deleteEntry i v) = m_entries v"
      using eq by simp
    moreover have "Vault.more (deleteEntry i v) = Vault.more v"
      by (simp add: deleteEntry_def)
    ultimately show ?thesis by simp
  qed
  from eq gone same show ?thesis by blast
qed

theorem deleteEntry_removes_all_keeps_order_witness:
  "m_entries (deleteEntry 1 \<lparr>m_entries = [entry_mail, entry_bank, entry_mail_edited]\<rparr>)
     = [entry_bank]
   \<and> 7 \<notin> id' ` set [entry_mail, entry_bank, entry_mail_edited]
   \<and> deleteEntry 7 \<lparr>m_entries = [entry_mail, entry_bank, entry_mail_edited]\<rparr>
     = \<lparr>m_entries = [entry_mail, entry_bank, entry_mail_edited]\<rparr>"
  using deleteEntry_removes_all_keeps_order
      [of 1 "\<lparr>m_entries = [entry_mail, entry_bank, entry_mail_edited]\<rparr>"]
    deleteEntry_removes_all_keeps_order
      [of 7 "\<lparr>m_entries = [entry_mail, entry_bank, entry_mail_edited]\<rparr>"]
  by (simp add: entry_mail_def entry_bank_def entry_mail_edited_def)

subsection \<open>Identifiers\<close>

lemma getEntryForEdit_loop_None:
  "getEntryForEdit_loop i es = None \<longleftrightarrow> i \<notin> id' ` set es"
  by (induction es) auto

lemma getEntryForEdit_loop_Some:
  "getEntryForEdit_loop i es = Some k \<Longrightarrow> k < length es \<and> id' (es ! k) = i"
  by (induction es arbitrary: k) (auto split: if_splits)

lemma unique_ids_deleteEntry: "unique_ids v \<Longrightarrow> unique_ids (deleteEntry i v)"
  by (simp add: unique_ids_def deleteEntry_filter distinct_map_filter)

lemma unique_ids_popup_Save: "unique_ids v \<Longrightarrow> unique_ids (popup_Save entry v)"
proof (cases "getEntryForEdit (id' entry) v")
  case None
  then have "id' entry \<notin> id' ` set (m_entries v)"
    by (simp add: getEntryForEdit_def getEntryForEdit_loop_None)
  moreover assume "unique_ids v"
  ultimately show ?thesis
    using None by (simp add: popup_Save_def addEntry_def unique_ids_def)
next
  case (Some k)
  then have k: "k < length (m_entries v)" "id' (m_entries v ! k) = id' entry"
    using getEntryForEdit_loop_Some [of "id' entry" "m_entries v" k]
    by (simp_all add: getEntryForEdit_def)
  have "map id' ((m_entries v)[k := entry]) = (map id' (m_entries v))[k := map id' (m_entries v) ! k]"
    using k by (simp add: map_update)
  then have "map id' ((m_entries v)[k := entry]) = map id' (m_entries v)"
    by simp
  moreover assume "unique_ids v"
  ultimately show ?thesis
    using Some by (simp add: popup_Save_def unique_ids_def)
qed

lemma unique_ids_run_ui: "unique_ids v \<Longrightarrow> unique_ids (run_ui as v)"
  by (induction as v rule: run_ui.induct)
     (simp_all add: unique_ids_popup_Save unique_ids_deleteEntry)

text \<open>
  C3, as the claim states it, fails: \<open>addEntry\<close> appends without looking at the
  identifiers stored, so adding the same entry twice to the empty vault leaves two entries
  with one identifier.
\<close>

theorem addEntry_duplicates_identifier:
  "\<not> unique_ids (run_calls [Add entry_mail, Add entry_mail] empty_vault)"
  by (simp add: unique_ids_def addEntry_def empty_vault_def)

text \<open>
  C3, amended. Uniqueness is kept by the caller: the popup's "Save" looks the identifier up
  with \<open>getEntryForEdit\<close>, overwrites the entry found and calls \<open>addEntry\<close> only when there
  is none. After any sequence of such saves and of deletions, starting from the empty
  vault, no two entries share an identifier.
\<close>

theorem unique_ids_after_ui_actions: "unique_ids (run_ui as empty_vault)"
  by (rule unique_ids_run_ui) (simp add: unique_ids_def empty_vault_def)

subsection \<open>The envelope and the round trip\<close>

lemmas sodium_lengths =
  crypto_pwhash_SALTBYTES_def crypto_secretbox_NONCEBYTES_def crypto_secretbox_MACBYTES_def

lemma char_of_uchar_of_char: "char_of (unat (of_char c :: uchar)) = c"
proof -
  have "(of_char c :: uchar) = of_nat (of_char c)"
    by (simp add: of_nat_of_char)
  then have "unat (of_char c :: uchar) = (of_char c :: nat) mod 256"
    by (simp add: unat_of_nat)
  then show ?thesis by simp
qed

lemma to_chars_to_uchars: "to_chars (to_uchars s) = s"
  by (simp add: to_chars_def to_uchars_def char_of_uchar_of_char map_idI)

lemma length_to_uchars: "length (to_uchars s) = length s"
  by (simp add: to_uchars_def)

lemma decrypt_short:
  "length d < crypto_pwhash_SALTBYTES + crypto_secretbox_NONCEBYTES \<Longrightarrow>
   decrypt lib d passwd st = (Inr None, st)"
  by (simp add: decrypt_def)

lemma size_t_sub_no_wrap:
  assumes "b \<le> a" and "a < 2 ^ 64"
  shows "size_t_sub a b = a - b"
proof -
  have eq: "a + 2 ^ 64 - b = (a - b) + 2 ^ 64"
    using assms(1) by (rule Nat.diff_add_assoc2)
  have lt: "a - b < 2 ^ 64"
    using assms(2) by (rule less_imp_diff_less)
  have "size_t_sub a b = ((a - b) + 2 ^ 64) mod 2 ^ 64"
    unfolding size_t_sub_def eq ..
  also have "\<dots> = (a - b) mod 2 ^ 64"
    by (rule mod_add_self2)
  also have "\<dots> = a - b"
    using lt by (rule mod_less)
  finally show ?thesis .
qed

text \<open>
  Between the guard and the length of a tag: the key is derived, and when that succeeds
  the length of the plaintext buffer wraps around.
\<close>

lemma size_t_sub_wraps:
  assumes "a < b" and "b \<le> 2 ^ 63"
  shows "size_t_sub a b > vector_max_size"
proof -
  have "a + 2 ^ 64 - b < 2 ^ 64"
    using assms(1) by simp
  then have "size_t_sub a b = a + 2 ^ 64 - b"
    unfolding size_t_sub_def by (rule mod_less)
  moreover have "(2::nat) ^ 64 = 2 ^ 63 + 2 ^ 63"
    by simp
  ultimately show ?thesis
    using assms(2) by (simp add: vector_max_size_def)
qed

lemma decrypt_between_guard_and_tag:
  assumes "crypto_pwhash_SALTBYTES + crypto_secretbox_NONCEBYTES \<le> length d"
    and "length d < crypto_pwhash_SALTBYTES + crypto_secretbox_NONCEBYTES + crypto_secretbox_MACBYTES"
  shows "decrypt lib d passwd st =
           (if pwhash_fails lib (pwhash_calls st) then Inr None else Inl length_error,
            st\<lparr>pwhash_calls := Suc (pwhash_calls st)\<rparr>)"
proof -
  have "length d - crypto_pwhash_SALTBYTES - crypto_secretbox_NONCEBYTES < crypto_secretbox_MACBYTES"
    using assms by simp
  moreover have "crypto_secretbox_MACBYTES \<le> 2 ^ 63"
    by (simp add: crypto_secretbox_MACBYTES_def)
  ultimately have "size_t_sub (length d - crypto_pwhash_SALTBYTES - crypto_secretbox_NONCEBYTES)
                     crypto_secretbox_MACBYTES > vector_max_size"
    by (rule size_t_sub_wraps)
  then show ?thesis
    using assms(1) by (simp add: decrypt_def crypto_pwhash_def Let_def)
qed

lemma encrypt_result:
  assumes "\<not> pwhash_fails lib (pwhash_calls st)"
    and "length data + crypto_secretbox_MACBYTES \<le> vector_max_size"
  shows "encrypt lib data passwd st =
    (Inr (map (random_byte lib (rand_calls st)) [0..<crypto_pwhash_SALTBYTES]
          @ map (random_byte lib (Suc (rand_calls st))) [0..<crypto_secretbox_NONCEBYTES]
          @ secretbox_easy lib (to_uchars data)
              (map (random_byte lib (Suc (rand_calls st))) [0..<crypto_secretbox_NONCEBYTES])
              (pwhash_key lib passwd
                 (map (random_byte lib (rand_calls st)) [0..<crypto_pwhash_SALTBYTES]))),
     \<lparr>rand_calls = Suc (Suc (rand_calls st)), pwhash_calls = Suc (pwhash_calls st)\<rparr>)"
  using assms
  by (simp add: encrypt_def randombytes_buf_def crypto_pwhash_def Let_def)

lemma decrypt_envelope:
  assumes len_salt: "length salt = crypto_pwhash_SALTBYTES"
    and len_nonce: "length nonce = crypto_secretbox_NONCEBYTES"
    and len_sealed: "crypto_secretbox_MACBYTES \<le> length sealed"
    and fits: "length sealed \<le> vector_max_size + crypto_secretbox_MACBYTES"
    and kdf: "\<not> pwhash_fails lib (pwhash_calls st)"
  shows "decrypt lib (salt @ nonce @ sealed) passwd st =
    (case secretbox_open_easy lib sealed nonce (pwhash_key lib passwd salt) of
       None \<Rightarrow> Inr None | Some m \<Rightarrow> Inr (Some (to_chars m)),
     st\<lparr>pwhash_calls := Suc (pwhash_calls st)\<rparr>)"
proof -
  have "length sealed < 2 ^ 64"
    using fits by (simp add: vector_max_size_def crypto_secretbox_MACBYTES_def)
  then have "size_t_sub (length sealed) crypto_secretbox_MACBYTES
             = length sealed - crypto_secretbox_MACBYTES"
    using len_sealed by (simp add: size_t_sub_no_wrap)
  then have ok: "\<not> size_t_sub (length sealed) crypto_secretbox_MACBYTES > vector_max_size"
    using fits by simp
  show ?thesis
    using len_salt len_nonce kdf ok
    by (simp add: decrypt_def crypto_pwhash_def Let_def split: option.splits)
qed

lemma from_json_to_json: "from_json js (to_json p) = Inr p"
  by (simp add: from_json_def to_json_def and_then_def)

lemma get_entries_loop_to_json: "get_entries_loop js (map to_json es) = Inr es"
  by (induction es) (simp_all add: from_json_to_json and_then_def)

lemma get_entries_entries_to_json: "get_entries js (entries_to_json es) = Inr es"
  by (simp add: entries_to_json_def get_entries_loop_to_json)

text \<open>
  C1. Saving and loading is a round trip. Let the sealing primitive give a message that is
  one tag longer and that opens, under the same key and nonce, to what was sealed; let the
  JSON library print the entries as a text and read that text back as the same value.
  Then, whenever the key derivation does not run out of memory and the file can be
  written, \<open>save\<close> succeeds, and \<open>load\<close> of the file it wrote, with the same password and
  whatever the vault held before, succeeds and leaves exactly the saved entries, in their
  order.
\<close>

theorem save_then_load_restores_entries:
  assumes seal_open: "\<forall>m n k. secretbox_open_easy lib (secretbox_easy lib m n k) n k = Some m"
    and seal_len: "\<forall>m n k. length (secretbox_easy lib m n k) = length m + crypto_secretbox_MACBYTES"
    and printed: "dump js 4 (entries_to_json (m_entries v)) = Inr text"
    and read_back: "parse js text = Inr (entries_to_json (m_entries v))"
    and fits: "length text + crypto_secretbox_MACBYTES \<le> vector_max_size"
    and kdf_save: "\<not> pwhash_fails lib (pwhash_calls st)"
    and writable: "\<not> unwritable fs filepath"
    and kdf_load: "\<not> pwhash_fails lib (pwhash_calls st2)"
  shows "\<exists>fs' st'.
           save lib js filepath passwd v fs st = (Inr True, fs', st')
         \<and> load lib js fs' filepath passwd v0 st2
             = (Inr True, v0\<lparr>m_entries := m_entries v\<rparr>,
                st2\<lparr>pwhash_calls := Suc (pwhash_calls st2)\<rparr>)"
proof -
  let ?salt = "map (random_byte lib (rand_calls st)) [0..<crypto_pwhash_SALTBYTES]"
  let ?nonce = "map (random_byte lib (Suc (rand_calls st))) [0..<crypto_secretbox_NONCEBYTES]"
  let ?key = "pwhash_key lib passwd ?salt"
  let ?sealed = "secretbox_easy lib (to_uchars text) ?nonce ?key"
  let ?blob = "?salt @ ?nonce @ ?sealed"
  let ?st' = "\<lparr>rand_calls = Suc (Suc (rand_calls st)), pwhash_calls = Suc (pwhash_calls st)\<rparr>"
  let ?fs' = "fs\<lparr>contents := (contents fs)(filepath \<mapsto> ?blob)\<rparr>"
  have enc: "encrypt lib text passwd st = (Inr ?blob, ?st')"
    using kdf_save fits by (rule encrypt_result)
  have saved: "save lib js filepath passwd v fs st = (Inr True, ?fs', ?st')"
    using printed enc writable by (simp add: save_def)
  have len_sealed: "length ?sealed = length text + crypto_secretbox_MACBYTES"
    using seal_len by (simp add: length_to_uchars)
  have opened: "secretbox_open_easy lib ?sealed ?nonce ?key = Some (to_uchars text)"
    using seal_open by simp
  have dec: "decrypt lib ?blob passwd st2
             = (Inr (Some text), st2\<lparr>pwhash_calls := Suc (pwhash_calls st2)\<rparr>)"
    using decrypt_envelope [of ?salt ?nonce ?sealed lib st2 passwd] len_sealed fits kdf_load
    by (simp add: opened to_chars_to_uchars)
  have nonempty: "?blob \<noteq> []"
    by (simp add: crypto_pwhash_SALTBYTES_def)
  have "load lib js ?fs' filepath passwd v0 st2
        = (Inr True, v0\<lparr>m_entries := m_entries v\<rparr>,
           st2\<lparr>pwhash_calls := Suc (pwhash_calls st2)\<rparr>)"
    using nonempty
    by (simp add: load_def dec read_back and_then_def get_entries_entries_to_json
             del: append_is_Nil_conv)
  with saved show ?thesis by blast
qed

theorem save_then_load_restores_entries_witness:
  "fst (save toy_sodium toy_json ''my_vault.db'' ''correct-password'' sample_vault no_files fresh)
     = Inr True
   \<and> load toy_sodium toy_json saved_files ''my_vault.db'' ''correct-password'' empty_vault fresh
     = (Inr True, sample_vault, \<lparr>rand_calls = 0, pwhash_calls = 1\<rparr>)"
proof -
  have len_tag: "length (toy_tag k) = 16" for k
    by (simp add: toy_tag_def)
  have a1: "\<forall>m n k. secretbox_open_easy toy_sodium (secretbox_easy toy_sodium m n k) n k = Some m"
    by (simp add: toy_sodium_def len_tag)
  have a2: "\<forall>m n k. length (secretbox_easy toy_sodium m n k) = length m + crypto_secretbox_MACBYTES"
    by (simp add: toy_sodium_def len_tag crypto_secretbox_MACBYTES_def)
  have a3: "dump toy_json 4 (entries_to_json (m_entries sample_vault)) = Inr ''[mail, bank]''"
    by (simp add: toy_json_def sample_vault_def)
  have a4: "parse toy_json ''[mail, bank]'' = Inr (entries_to_json (m_entries sample_vault))"
    by (simp add: toy_json_def sample_vault_def)
  have a5: "length ''[mail, bank]'' + crypto_secretbox_MACBYTES \<le> vector_max_size"
    by (simp add: crypto_secretbox_MACBYTES_def vector_max_size_def)
  have a6: "\<not> pwhash_fails toy_sodium (pwhash_calls fresh)"
    by (simp add: toy_sodium_def)
  have a7: "\<not> unwritable no_files ''my_vault.db''"
    by (simp add: no_files_def)
  from save_then_load_restores_entries
         [OF a1 a2 a3 a4 a5 a6 a7 a6, where passwd = "''correct-password''" and ?v0.0 = empty_vault]
  obtain fs' st' where
    s: "save toy_sodium toy_json ''my_vault.db'' ''correct-password'' sample_vault no_files fresh
          = (Inr True, fs', st')" and
    l: "load toy_sodium toy_json fs' ''my_vault.db'' ''correct-password'' empty_vault fresh
          = (Inr True, empty_vault\<lparr>m_entries := m_entries sample_vault\<rparr>,
             fresh\<lparr>pwhash_calls := Suc (pwhash_calls fresh)\<rparr>)"
    by blast
  have "saved_files = fs'"
    by (simp add: saved_files_def s)
  with s l show ?thesis
    by (simp add: empty_vault_def sample_vault_def fresh_def)
qed

subsection \<open>Encrypting and decrypting\<close>

lemma hello_envelope_eq:
  "hello_envelope =
     map (random_byte toy_sodium 0) [0..<16] @ map (random_byte toy_sodium 1) [0..<24]
     @ toy_tag (pwhash_key toy_sodium ''correct-password'' (map (random_byte toy_sodium 0) [0..<16]))
     @ to_uchars ''hello''"
  by (simp add: hello_envelope_def encrypt_def randombytes_buf_def crypto_pwhash_def Let_def
        sodium_lengths vector_max_size_def fresh_def toy_sodium_def)

text \<open>
  C8. When the key derivation succeeds, \<open>encrypt\<close> returns the salt, then the nonce, then
  the sealed message (ciphertext and tag), each drawn or computed as the code does; with a
  sealing primitive that adds exactly one tag, the total length is
  \<open>SALTBYTES + NONCEBYTES + length data + MACBYTES\<close>. The empty plaintext gives
  \<open>SALTBYTES + NONCEBYTES + MACBYTES\<close> bytes, \<open>''hello''\<close> gives five more.
\<close>

theorem encrypt_layout_and_length:
  assumes kdf: "\<not> pwhash_fails lib (pwhash_calls st)"
    and fits: "length data + crypto_secretbox_MACBYTES \<le> vector_max_size"
    and sealed: "\<forall>m n k. length (secretbox_easy lib m n k) = length m + crypto_secretbox_MACBYTES"
  shows "\<exists>salt nonce.
           salt = map (random_byte lib (rand_calls st)) [0..<crypto_pwhash_SALTBYTES]
         \<and> nonce = map (random_byte lib (Suc (rand_calls st))) [0..<crypto_secretbox_NONCEBYTES]
         \<and> fst (encrypt lib data passwd st)
             = Inr (salt @ nonce @ secretbox_easy lib (to_uchars data) nonce (pwhash_key lib passwd salt))
         \<and> length (salt @ nonce @ secretbox_easy lib (to_uchars data) nonce (pwhash_key lib passwd salt))
             = crypto_pwhash_SALTBYTES + crypto_secretbox_NONCEBYTES + length data
               + crypto_secretbox_MACBYTES"
  using sealed by (simp add: encrypt_result [OF kdf fits] length_to_uchars)

theorem encrypt_layout_and_length_witness:
  "(\<exists>blob. fst (encrypt toy_sodium ''hello'' ''correct-password'' fresh) = Inr blob
           \<and> length blob = 16 + 24 + 5 + 16)
   \<and> (\<exists>blob. fst (encrypt toy_sodium [] ''correct-password'' fresh) = Inr blob
           \<and> length blob = 16 + 24 + 16)"
proof -
  have len_tag: "length (toy_tag k) = 16" for k
    by (simp add: toy_tag_def)
  have a1: "\<not> pwhash_fails toy_sodium (pwhash_calls fresh)"
    by (simp add: toy_sodium_def)
  have a2: "length data + crypto_secretbox_MACBYTES \<le> vector_max_size" if "length data \<le> 5" for data :: string
    using that by (simp add: crypto_secretbox_MACBYTES_def vector_max_size_def)
  have a3: "\<forall>m n k. length (secretbox_easy toy_sodium m n k) = length m + crypto_secretbox_MACBYTES"
    by (simp add: toy_sodium_def len_tag crypto_secretbox_MACBYTES_def)
  have h: "length ''hello'' \<le> 5" and e: "length ([] :: string) \<le> 5" by simp_all
  show ?thesis
    using encrypt_layout_and_length [OF a1 a2 [OF h] a3, of "''correct-password''"]
          encrypt_layout_and_length [OF a1 a2 [OF e] a3, of "''correct-password''"]
    by (simp add: sodium_lengths)
qed

text \<open>
  C4. The guard of \<open>decrypt\<close> compares the length with \<open>SALTBYTES + NONCEBYTES\<close> only
  and leaves the tag out. An envelope of 40 bytes is shorter than
  \<open>SALTBYTES + NONCEBYTES + MACBYTES\<close>, yet it passes the guard and the key derivation is
  invoked on it, whatever the library and the password; when the derivation succeeds, the
  length \<open>ciphertext_len - MACBYTES\<close> then wraps around and the allocation of the
  plaintext buffer throws \<^verbatim>\<open>std::length_error\<close> instead of rejecting the input.
\<close>

theorem decrypt_derives_key_below_tag_length:
  "pwhash_calls (snd (decrypt lib (replicate 40 0) passwd st)) = Suc (pwhash_calls st)
   \<and> decrypt toy_sodium (replicate 40 0) ''correct-password'' fresh
       = (Inl length_error, \<lparr>rand_calls = 0, pwhash_calls = 1\<rparr>)"
  by (simp add: decrypt_def sodium_lengths crypto_pwhash_def Let_def size_t_sub_def
        vector_max_size_def toy_sodium_def fresh_def split: option.splits)

text \<open>
  C6, as the claim states it, fails: \<open>decrypt\<close> has one failure value, the empty optional.
  A key derivation that runs out of memory and a wrong password give the caller the same
  answer.
\<close>

theorem decrypt_same_answer_no_memory_or_wrong_password:
  "fst (decrypt toy_sodium_no_memory hello_envelope ''correct-password'' fresh)
     = fst (decrypt toy_sodium hello_envelope ''wrong-password'' fresh)"
  by (simp add: hello_envelope_eq decrypt_def sodium_lengths crypto_pwhash_def Let_def
        size_t_sub_def vector_max_size_def toy_sodium_def toy_sodium_no_memory_def fresh_def
        toy_tag_def to_uchars_def)

text \<open>
  C6, amended. A failed key derivation is not surfaced by \<open>decrypt\<close> as an outcome of its
  own. When the key derivation fails, \<open>decrypt\<close> returns the empty optional, whatever the
  envelope and the password. It returns the same empty optional when the derivation
  succeeds, the envelope has at least \<open>SALTBYTES + NONCEBYTES + MACBYTES\<close> bytes and at most
  the bytes a vector can hold, and the sealed message does not open (wrong password, or a
  corrupted or tampered file). Only \<open>encrypt\<close> tells a failed key derivation apart: it
  throws \<^verbatim>\<open>std::runtime_error\<close>.
\<close>

theorem decrypt_failures_share_nullopt:
  "(pwhash_fails lib (pwhash_calls st) \<longrightarrow> fst (decrypt lib d passwd st) = Inr None)
   \<and> (\<not> pwhash_fails lib (pwhash_calls st)
      \<and> crypto_pwhash_SALTBYTES + crypto_secretbox_NONCEBYTES + crypto_secretbox_MACBYTES
          \<le> length d
      \<and> length d \<le> vector_max_size
      \<and> secretbox_open_easy lib
            (drop (crypto_pwhash_SALTBYTES + crypto_secretbox_NONCEBYTES) d)
            (take crypto_secretbox_NONCEBYTES (drop crypto_pwhash_SALTBYTES d))
            (pwhash_key lib passwd (take crypto_pwhash_SALTBYTES d)) = None
      \<longrightarrow> fst (decrypt lib d passwd st) = Inr None)
   \<and> (pwhash_fails lib (pwhash_calls st) \<longrightarrow>
        fst (encrypt lib data passwd st)
          = Inl (runtime_error ''Failed to derive encryption key (out of memory?)''))"
proof (intro conjI impI)
  assume "pwhash_fails lib (pwhash_calls st)"
  then show "fst (decrypt lib d passwd st) = Inr None"
    by (simp add: decrypt_def crypto_pwhash_def Let_def)
next
  assume a: "\<not> pwhash_fails lib (pwhash_calls st)
      \<and> crypto_pwhash_SALTBYTES + crypto_secretbox_NONCEBYTES + crypto_secretbox_MACBYTES
          \<le> length d
      \<and> length d \<le> vector_max_size
      \<and> secretbox_open_easy lib
            (drop (crypto_pwhash_SALTBYTES + crypto_secretbox_NONCEBYTES) d)
            (take crypto_secretbox_NONCEBYTES (drop crypto_pwhash_SALTBYTES d))
            (pwhash_key lib passwd (take crypto_pwhash_SALTBYTES d)) = None"
  then have long: "crypto_pwhash_SALTBYTES + crypto_secretbox_NONCEBYTES + crypto_secretbox_MACBYTES
                     \<le> length d"
    and real: "length d \<le> vector_max_size"
    by simp_all
  let ?n = "length d - crypto_pwhash_SALTBYTES - crypto_secretbox_NONCEBYTES"
  have "length d < 2 ^ 64"
    using real by (simp add: vector_max_size_def)
  then have "?n < 2 ^ 64"
    by simp
  moreover have "crypto_secretbox_MACBYTES \<le> ?n"
    using long by simp
  ultimately have "size_t_sub ?n crypto_secretbox_MACBYTES = ?n - crypto_secretbox_MACBYTES"
    by (rule size_t_sub_no_wrap [rotated])
  then have "\<not> size_t_sub ?n crypto_secretbox_MACBYTES > vector_max_size"
    using real by simp
  with a long show "fst (decrypt lib d passwd st) = Inr None"
    by (simp add: decrypt_def crypto_pwhash_def Let_def)
next
  assume "pwhash_fails lib (pwhash_calls st)"
  then show "fst (encrypt lib data passwd st)
               = Inl (runtime_error ''Failed to derive encryption key (out of memory?)'')"
    by (simp add: encrypt_def randombytes_buf_def crypto_pwhash_def Let_def)
qed

theorem decrypt_failures_share_nullopt_witness:
  "fst (decrypt toy_sodium_no_memory hello_envelope ''correct-password'' fresh) = Inr None
   \<and> fst (decrypt toy_sodium_no_memory [] ''correct-password'' fresh) = Inr None
   \<and> fst (decrypt toy_sodium hello_envelope ''wrong-password'' fresh) = Inr None
   \<and> fst (encrypt toy_sodium_no_memory ''hello'' ''correct-password'' fresh)
       = Inl (runtime_error ''Failed to derive encryption key (out of memory?)'')"
proof -
  have len: "length hello_envelope = 61"
    by (simp add: hello_envelope_eq toy_tag_def to_uchars_def)
  have long: "crypto_pwhash_SALTBYTES + crypto_secretbox_NONCEBYTES + crypto_secretbox_MACBYTES
                \<le> length hello_envelope"
    by (simp add: len sodium_lengths)
  have real: "length hello_envelope \<le> vector_max_size"
    by (simp add: len vector_max_size_def)
  have f1: "pwhash_fails toy_sodium_no_memory (pwhash_calls fresh)"
    by (simp add: toy_sodium_no_memory_def)
  have f0: "\<not> pwhash_fails toy_sodium (pwhash_calls fresh)"
    by (simp add: toy_sodium_def)
  have f2: "secretbox_open_easy toy_sodium
              (drop (crypto_pwhash_SALTBYTES + crypto_secretbox_NONCEBYTES) hello_envelope)
              (take crypto_secretbox_NONCEBYTES (drop crypto_pwhash_SALTBYTES hello_envelope))
              (pwhash_key toy_sodium ''wrong-password''
                 (take crypto_pwhash_SALTBYTES hello_envelope)) = None"
    by (simp add: hello_envelope_eq sodium_lengths toy_sodium_def toy_tag_def to_uchars_def)
  show ?thesis
    using decrypt_failures_share_nullopt
            [of toy_sodium_no_memory fresh hello_envelope "''correct-password''" "''hello''"]
          decrypt_failures_share_nullopt
            [of toy_sodium_no_memory fresh "[]" "''correct-password''" "''hello''"]
          decrypt_failures_share_nullopt
            [of toy_sodium fresh hello_envelope "''wrong-password''" "''hello''"]
          long real f0 f1 f2
    by simp
qed

subsection \<open>Generating a password\<close>

lemma GeneratePassword_loop_eq:
  "GeneratePassword_loop lib char_set len i passwd st =
     (passwd @ map (\<lambda>k. char_set ! unat (random_uniform lib (rand_calls st + k)
                                           (of_nat (length char_set))))
                [0..<nat (len - i)],
      st\<lparr>rand_calls := rand_calls st + nat (len - i)\<rparr>)"
proof (induction lib char_set len i passwd st rule: GeneratePassword_loop.induct)
  case (1 lib char_set len i passwd st)
  show ?case
  proof (cases "i < len")
    case False
    then show ?thesis
      by (subst GeneratePassword_loop.simps) simp
  next
    case True
    let ?index = "random_uniform lib (rand_calls st) (of_nat (length char_set))"
    let ?st1 = "st\<lparr>rand_calls := Suc (rand_calls st)\<rparr>"
    have call: "(?index, ?st1) = randombytes_uniform lib (of_nat (length char_set)) st"
      by (simp add: randombytes_uniform_def)
    have steps: "nat (len - i) = Suc (nat (len - (i + 1)))"
      using True by simp
    have split: "[0..<Suc n] = 0 # map Suc [0..<n]" for n
      by (simp only: upt_conv_Cons zero_less_Suc map_Suc_upt)
    have "GeneratePassword_loop lib char_set len i passwd st
          = GeneratePassword_loop lib char_set len (i + 1)
              (passwd @ [char_set ! unat ?index]) ?st1"
      using True by (subst GeneratePassword_loop.simps) (simp add: randombytes_uniform_def)
    also note "1.IH" [OF True call refl]
    finally show ?thesis
      by (simp only: steps split) (simp add: comp_def)
  qed
qed

lemma char_set_of_empty:
  "char_set_of use_upper use_lower use_numbers use_symbols = []
   \<longleftrightarrow> \<not> (use_upper \<or> use_lower \<or> use_numbers \<or> use_symbols)"
  by (simp add: char_set_of_def UPPERCASE_def LOWERCASE_def NUMBERS_def SYMBOLS_def)

lemma length_char_set_of:
  "length (char_set_of use_upper use_lower use_numbers use_symbols) \<le> 88"
  by (simp add: char_set_of_def UPPERCASE_def LOWERCASE_def NUMBERS_def SYMBOLS_def)

lemma space_not_in_char_set:
  "CHR '' '' \<notin> set (char_set_of use_upper use_lower use_numbers use_symbols)"
  by (simp add: char_set_of_def UPPERCASE_def LOWERCASE_def NUMBERS_def SYMBOLS_def)

lemma uniform_index_in_range:
  assumes uniform: "\<forall>k n. n \<noteq> 0 \<longrightarrow> random_uniform lib k n < n"
    and nonempty: "char_set \<noteq> []" and small: "length char_set \<le> 88"
  shows "unat (random_uniform lib k (of_nat (length char_set) :: uint32_t)) < length char_set"
proof -
  let ?n = "of_nat (length char_set) :: uint32_t"
  have n: "unat ?n = length char_set"
    using small by (simp add: unat_of_nat)
  then have "?n \<noteq> 0"
    using nonempty by (metis length_0_conv unat_0)
  then have "random_uniform lib k ?n < ?n"
    using uniform by simp
  then show ?thesis
    using n by (simp add: word_less_nat_alt)
qed

lemma without_space_not_Invalid_settings:
  "CHR '' '' \<notin> set passwd \<Longrightarrow> passwd \<noteq> ''Invalid settings''"
  by auto

text \<open>
  C9. With no character class selected \<open>GeneratePassword\<close> returns the text
  \<open>''Invalid settings''\<close> and draws nothing. With a class selected and a length that is
  not negative, it returns a text of exactly that length; its \<open>i\<close>-th character is the
  character of the alphabet at the index that the \<open>i\<close>-th call of
  \<^verbatim>\<open>randombytes_uniform\<close> returns for the size of the whole alphabet, so every character
  is in the alphabet. The alphabet is formed by the selected classes and by nothing else:
  the upper-case letters, the lower-case letters, the digits and the 26 symbols, each
  present exactly when its class is selected, in this order. No text returned in that case
  equals \<open>''Invalid settings''\<close>, whose space is in no class. That
  \<^verbatim>\<open>randombytes_uniform(n)\<close> returns a value below \<open>n\<close> is the library's contract.
\<close>

theorem GeneratePassword_result:
  assumes uniform: "\<forall>k n. n \<noteq> 0 \<longrightarrow> random_uniform lib k n < n"
    and nonneg: "0 \<le> len" and int_range: "len < 2 ^ 31"
  shows "(\<not> (use_upper \<or> use_lower \<or> use_numbers \<or> use_symbols) \<longrightarrow>
            GeneratePassword lib len use_upper use_lower use_numbers use_symbols st
              = (Inr ''Invalid settings'', st))
       \<and> (use_upper \<or> use_lower \<or> use_numbers \<or> use_symbols \<longrightarrow>
            (\<exists>passwd.
               GeneratePassword lib len use_upper use_lower use_numbers use_symbols st
                 = (Inr passwd, st\<lparr>rand_calls := rand_calls st + nat len\<rparr>)
             \<and> length passwd = nat len
             \<and> (\<forall>i < nat len.
                   unat (random_uniform lib (rand_calls st + i)
                           (of_nat (length (char_set_of use_upper use_lower use_numbers use_symbols))))
                     < length (char_set_of use_upper use_lower use_numbers use_symbols)
                 \<and> passwd ! i
                     = char_set_of use_upper use_lower use_numbers use_symbols
                       ! unat (random_uniform lib (rand_calls st + i)
                           (of_nat (length (char_set_of use_upper use_lower use_numbers use_symbols)))))
             \<and> set passwd \<subseteq> set (char_set_of use_upper use_lower use_numbers use_symbols)
             \<and> passwd \<noteq> ''Invalid settings''))
       \<and> char_set_of use_upper use_lower use_numbers use_symbols
           = (if use_upper then ''ABCDEFGHIJKLMNOPQRSTUVWXYZ'' else [])
             @ (if use_lower then ''abcdefghijklmnopqrstuvwxyz'' else [])
             @ (if use_numbers then ''0123456789'' else [])
             @ (if use_symbols then ''!@#$%^&*()_+-=[]{};:,.<>/?'' else [])"
proof (intro conjI impI)
  show "char_set_of use_upper use_lower use_numbers use_symbols
           = (if use_upper then ''ABCDEFGHIJKLMNOPQRSTUVWXYZ'' else [])
             @ (if use_lower then ''abcdefghijklmnopqrstuvwxyz'' else [])
             @ (if use_numbers then ''0123456789'' else [])
             @ (if use_symbols then ''!@#$%^&*()_+-=[]{};:,.<>/?'' else [])"
    by (simp only: char_set_of_def UPPERCASE_def LOWERCASE_def NUMBERS_def SYMBOLS_def)
next
  assume "\<not> (use_upper \<or> use_lower \<or> use_numbers \<or> use_symbols)"
  then have "char_set_of use_upper use_lower use_numbers use_symbols = []"
    by (simp add: char_set_of_empty)
  then show "GeneratePassword lib len use_upper use_lower use_numbers use_symbols st
               = (Inr ''Invalid settings'', st)"
    by (simp add: GeneratePassword_def)
next
  let ?cs = "char_set_of use_upper use_lower use_numbers use_symbols"
  let ?draw = "\<lambda>k. unat (random_uniform lib (rand_calls st + k) (of_nat (length ?cs)))"
  let ?pw = "map (\<lambda>k. ?cs ! ?draw k) [0..<nat len]"
  assume "use_upper \<or> use_lower \<or> use_numbers \<or> use_symbols"
  then have nonempty: "?cs \<noteq> []"
    by (simp add: char_set_of_empty)
  have in_range: "?draw k < length ?cs" for k
    using uniform nonempty length_char_set_of by (rule uniform_index_in_range)
  have "len < 2 ^ 64"
    using int_range by (rule less_trans) simp
  then have "len mod 2 ^ 64 = len"
    using nonneg by (rule mod_pos_pos_trivial [rotated])
  moreover have "nat len \<le> vector_max_size"
    using int_range by (simp add: vector_max_size_def)
  ultimately have reserve: "\<not> nat (len mod 2 ^ 64) > vector_max_size"
    by (simp only: not_less)
  have run: "GeneratePassword lib len use_upper use_lower use_numbers use_symbols st
               = (Inr ?pw, st\<lparr>rand_calls := rand_calls st + nat len\<rparr>)"
    using nonempty reserve by (simp add: GeneratePassword_def Let_def GeneratePassword_loop_eq)
  have len_pw: "length ?pw = nat len"
    by simp
  have chars: "\<forall>i < nat len. ?draw i < length ?cs \<and> ?pw ! i = ?cs ! ?draw i"
    using in_range by simp
  have sub: "set ?pw \<subseteq> set ?cs"
    using in_range by auto
  have "CHR '' '' \<notin> set ?pw"
    using sub space_not_in_char_set [of use_upper use_lower use_numbers use_symbols]
    by (rule contra_subsetD)
  then have distinct: "?pw \<noteq> ''Invalid settings''"
    by (rule without_space_not_Invalid_settings)
  show "\<exists>passwd.
          GeneratePassword lib len use_upper use_lower use_numbers use_symbols st
            = (Inr passwd, st\<lparr>rand_calls := rand_calls st + nat len\<rparr>)
        \<and> length passwd = nat len
        \<and> (\<forall>i < nat len. ?draw i < length ?cs \<and> passwd ! i = ?cs ! ?draw i)
        \<and> set passwd \<subseteq> set ?cs
        \<and> passwd \<noteq> ''Invalid settings''"
  proof (rule exI [where x = ?pw], intro conjI)
    show "GeneratePassword lib len use_upper use_lower use_numbers use_symbols st
            = (Inr ?pw, st\<lparr>rand_calls := rand_calls st + nat len\<rparr>)"
      by (fact run)
    show "length ?pw = nat len"
      by (fact len_pw)
    show "\<forall>i < nat len. ?draw i < length ?cs \<and> ?pw ! i = ?cs ! ?draw i"
      by (fact chars)
    show "set ?pw \<subseteq> set ?cs"
      by (fact sub)
    show "?pw \<noteq> ''Invalid settings''"
      by (fact distinct)
  qed
qed


theorem GeneratePassword_result_witness:
  "GeneratePassword toy_sodium 12 False False False False fresh = (Inr ''Invalid settings'', fresh)
   \<and> (\<exists>passwd. GeneratePassword toy_sodium 12 True False True True fresh
                    = (Inr passwd, \<lparr>rand_calls = 12, pwhash_calls = 0\<rparr>)
                \<and> length passwd = 12 \<and> passwd ! 0 = CHR ''A'')
   \<and> char_set_of True False True True
       = ''ABCDEFGHIJKLMNOPQRSTUVWXYZ0123456789!@#$%^&*()_+-=[]{};:,.<>/?''"
proof -
  have u: "\<forall>k n. n \<noteq> 0 \<longrightarrow> random_uniform toy_sodium k n < n"
    by (simp add: toy_sodium_def word_mod_less_divisor word_neq_0_conv)
  have r: "(0::int) \<le> 12" "(12::int) < 2 ^ 31"
    by simp_all
  note selected = GeneratePassword_result [OF u r, of True False True True fresh]
  have none: "GeneratePassword toy_sodium 12 False False False False fresh
                = (Inr ''Invalid settings'', fresh)"
    using GeneratePassword_result [OF u r, of False False False False fresh] by simp
  have alphabet: "char_set_of True False True True
                    = ''ABCDEFGHIJKLMNOPQRSTUVWXYZ0123456789!@#$%^&*()_+-=[]{};:,.<>/?''"
    using conjunct2 [OF conjunct2 [OF selected]] by simp
  have "\<exists>passwd. GeneratePassword toy_sodium 12 True False True True fresh
                    = (Inr passwd, fresh\<lparr>rand_calls := rand_calls fresh + nat 12\<rparr>)
              \<and> length passwd = nat 12
              \<and> (\<forall>i < nat 12.
                    unat (random_uniform toy_sodium (rand_calls fresh + i)
                           (of_nat (length (char_set_of True False True True))))
                      < length (char_set_of True False True True)
                  \<and> passwd ! i
                      = char_set_of True False True True
                        ! unat (random_uniform toy_sodium (rand_calls fresh + i)
                            (of_nat (length (char_set_of True False True True)))))
              \<and> set passwd \<subseteq> set (char_set_of True False True True)
              \<and> passwd \<noteq> ''Invalid settings''"
    by (rule mp [OF conjunct1 [OF conjunct2 [OF selected]]]) simp
  then obtain passwd where
    g: "GeneratePassword toy_sodium 12 True False True True fresh
          = (Inr passwd, fresh\<lparr>rand_calls := rand_calls fresh + nat 12\<rparr>)" and
    l: "length passwd = nat 12" and
    c: "\<forall>i < nat 12. passwd ! i
          = char_set_of True False True True
            ! unat (random_uniform toy_sodium (rand_calls fresh + i)
                (of_nat (length (char_set_of True False True True))))"
    by (elim exE conjE) (rule that, assumption, assumption, simp)
  have "passwd ! 0 = char_set_of True False True True
            ! unat (random_uniform toy_sodium (rand_calls fresh + 0)
                (of_nat (length (char_set_of True False True True))))"
    using c by simp
  then have "passwd ! 0 = CHR ''A''"
    by (simp add: toy_sodium_def fresh_def alphabet)
  with none g l alphabet show ?thesis
    by (simp add: fresh_def)
qed

subsection \<open>Loading\<close>

lemma load_missing: "contents fs filepath = None \<Longrightarrow> load lib js fs filepath passwd v st = (Inr False, v, st)"
  by (simp add: load_def)

lemma saved_files_contents:
  "contents saved_files ''my_vault.db'' =
     Some (map (random_byte toy_sodium 0) [0..<16] @ map (random_byte toy_sodium 1) [0..<24]
           @ toy_tag (pwhash_key toy_sodium ''correct-password''
                        (map (random_byte toy_sodium 0) [0..<16]))
           @ to_uchars ''[mail, bank]'')"
  by (simp add: saved_files_def save_def encrypt_def randombytes_buf_def crypto_pwhash_def
        Let_def sodium_lengths vector_max_size_def fresh_def toy_sodium_def toy_json_def
        sample_vault_def no_files_def)

lemma load_saved_wrong_password:
  "load toy_sodium toy_json saved_files ''my_vault.db'' ''wrong-password'' v fresh
     = (Inr False, v, \<lparr>rand_calls = 0, pwhash_calls = 1\<rparr>)"
  by (simp add: load_def saved_files_contents decrypt_def sodium_lengths crypto_pwhash_def
        Let_def size_t_sub_def vector_max_size_def toy_sodium_def fresh_def toy_tag_def
        to_uchars_def)

lemma load_saved_correct_password:
  "load toy_sodium toy_json saved_files ''my_vault.db'' ''correct-password'' v fresh
     = (Inr True, v\<lparr>m_entries := [entry_mail, entry_bank]\<rparr>,
        \<lparr>rand_calls = 0, pwhash_calls = 1\<rparr>)"
proof -
  let ?salt = "map (random_byte toy_sodium 0) [0..<16]"
  let ?nonce = "map (random_byte toy_sodium 1) [0..<24]"
  let ?sealed = "toy_tag (pwhash_key toy_sodium ''correct-password'' ?salt) @ to_uchars ''[mail, bank]''"
  have len_tag: "length (toy_tag k) = 16" for k
    by (simp add: toy_tag_def)
  have "decrypt toy_sodium (?salt @ ?nonce @ ?sealed) ''correct-password'' fresh
        = (case secretbox_open_easy toy_sodium ?sealed ?nonce
                  (pwhash_key toy_sodium ''correct-password'' ?salt) of
             None \<Rightarrow> Inr None | Some m \<Rightarrow> Inr (Some (to_chars m)),
           fresh\<lparr>pwhash_calls := Suc (pwhash_calls fresh)\<rparr>)"
    by (rule decrypt_envelope)
       (simp_all add: sodium_lengths len_tag vector_max_size_def toy_sodium_def length_to_uchars)
  also have "secretbox_open_easy toy_sodium ?sealed ?nonce
               (pwhash_key toy_sodium ''correct-password'' ?salt) = Some (to_uchars ''[mail, bank]'')"
    by (simp add: toy_sodium_def len_tag)
  finally have dec: "decrypt toy_sodium (?salt @ ?nonce @ ?sealed) ''correct-password'' fresh
        = (Inr (Some ''[mail, bank]''), \<lparr>rand_calls = 0, pwhash_calls = 1\<rparr>)"
    by (simp add: to_chars_to_uchars fresh_def)
  have ne: "?salt @ ?nonce @ ?sealed \<noteq> []"
    by simp
  show ?thesis
    using ne
    by (simp add: load_def saved_files_contents dec and_then_def toy_json_def
          get_entries_entries_to_json del: append_is_Nil_conv One_nat_def)
qed

text \<open>
  C7. Whatever the vault holds, \<open>load\<close> either returns true, and then the entries are the
  ones read from the file (the decrypted text, parsed and converted), or it does not return
  true and the vault is as it was: for a missing or an empty file, for a failed decryption,
  for a text that does not parse or convert, and for an exception that leaves \<open>load\<close>.
\<close>

theorem load_replaces_or_leaves_untouched:
  "(fst (load lib js fs filepath passwd v st) = Inr True
      \<and> (\<exists>encrypted_data text j es.
            contents fs filepath = Some encrypted_data
          \<and> fst (decrypt lib encrypted_data passwd st) = Inr (Some text)
          \<and> parse js text = Inr j
          \<and> get_entries js j = Inr es
          \<and> fst (snd (load lib js fs filepath passwd v st)) = v\<lparr>m_entries := es\<rparr>))
   \<or> (fst (load lib js fs filepath passwd v st) \<noteq> Inr True
      \<and> fst (snd (load lib js fs filepath passwd v st)) = v)"
  by (auto simp: load_def and_then_def split: option.splits prod.splits sum.splits)

theorem load_replaces_or_leaves_untouched_witness:
  "fst (snd (load toy_sodium toy_json no_files ''my_vault.db'' ''correct-password'' sample_vault fresh))
     = sample_vault
   \<and> fst (snd (load toy_sodium toy_json saved_files ''my_vault.db'' ''wrong-password'' empty_vault fresh))
     = empty_vault
   \<and> fst (snd (load toy_sodium toy_json saved_files ''my_vault.db'' ''correct-password'' empty_vault fresh))
     = sample_vault"
  using load_replaces_or_leaves_untouched
          [of toy_sodium toy_json no_files "''my_vault.db''" "''correct-password''" sample_vault fresh]
        load_replaces_or_leaves_untouched
          [of toy_sodium toy_json saved_files "''my_vault.db''" "''wrong-password''" empty_vault fresh]
        load_replaces_or_leaves_untouched
          [of toy_sodium toy_json saved_files "''my_vault.db''" "''correct-password''" empty_vault fresh]
  by (simp add: load_missing no_files_def load_saved_wrong_password load_saved_correct_password
        empty_vault_def sample_vault_def)


text \<open>
  C5, as the claim states it, fails: \<open>load\<close> returns a \<^verbatim>\<open>bool\<close>, and it returns the same
  false, with the vault unchanged, for a path that does not exist and for a file that does
  not decrypt under the password given.
\<close>

theorem load_same_answer_missing_or_undecryptable:
  "fst (load toy_sodium toy_json no_files ''my_vault.db'' ''wrong-password'' empty_vault fresh)
     = fst (load toy_sodium toy_json saved_files ''my_vault.db'' ''wrong-password'' empty_vault fresh)
   \<and> fst (snd (load toy_sodium toy_json no_files ''my_vault.db'' ''wrong-password'' empty_vault fresh))
     = fst (snd (load toy_sodium toy_json saved_files ''my_vault.db'' ''wrong-password'' empty_vault fresh))"
  by (simp add: load_missing no_files_def load_saved_wrong_password)

text \<open>
  C5, amended. The two cases are told apart by the caller, not by \<open>load\<close>: when \<open>load\<close>
  has returned false, the "Unlock" handler opens the path again. For a path that does not
  exist \<open>load\<close> returns false and the handler unlocks with the message that a new vault was
  created; for a file that exists and on which \<open>load\<close> returns false the handler stays in
  its state and reports a wrong password or a corrupt file. The two outcomes differ.
\<close>

theorem Unlock_tells_missing_from_undecryptable:
  "(contents fs vaultFilepath = None \<longrightarrow>
      fst (load lib js fs vaultFilepath passwordBuffer vault st) = Inr False
    \<and> RenderLoginScreen_Unlock lib js fs vaultFilepath passwordBuffer u vault st
        = Inr (u\<lparr>currentState := Unlocked,
                 loginError := ''New vault created. Click 'Save' to protect it.''\<rparr>, vault, st))
   \<and> (contents fs vaultFilepath \<noteq> None
      \<and> fst (load lib js fs vaultFilepath passwordBuffer vault st) = Inr False \<longrightarrow>
      RenderLoginScreen_Unlock lib js fs vaultFilepath passwordBuffer u vault st
        = Inr (u\<lparr>loginError := ''Wrong password or corrupt vault file.''\<rparr>, vault,
               snd (snd (load lib js fs vaultFilepath passwordBuffer vault st))))
   \<and> u\<lparr>currentState := Unlocked,
         loginError := ''New vault created. Click 'Save' to protect it.''\<rparr>
       \<noteq> u\<lparr>loginError := ''Wrong password or corrupt vault file.''\<rparr>"
proof (intro conjI impI)
  assume missing: "contents fs vaultFilepath = None"
  then show "fst (load lib js fs vaultFilepath passwordBuffer vault st) = Inr False"
    by (simp add: load_missing)
  from missing show "RenderLoginScreen_Unlock lib js fs vaultFilepath passwordBuffer u vault st
        = Inr (u\<lparr>currentState := Unlocked,
                 loginError := ''New vault created. Click 'Save' to protect it.''\<rparr>, vault, st)"
    by (simp add: RenderLoginScreen_Unlock_def load_missing)
next
  assume present: "contents fs vaultFilepath \<noteq> None
      \<and> fst (load lib js fs vaultFilepath passwordBuffer vault st) = Inr False"
  obtain r vault1 st1 where l: "load lib js fs vaultFilepath passwordBuffer vault st = (r, vault1, st1)"
    by (cases "load lib js fs vaultFilepath passwordBuffer vault st") auto
  have r: "r = Inr False"
    using present l by simp
  have "vault1 = vault"
    using l r by (auto simp: load_def and_then_def split: option.splits prod.splits sum.splits if_splits)
  then show "RenderLoginScreen_Unlock lib js fs vaultFilepath passwordBuffer u vault st
        = Inr (u\<lparr>loginError := ''Wrong password or corrupt vault file.''\<rparr>, vault,
               snd (snd (load lib js fs vaultFilepath passwordBuffer vault st)))"
    using present l r by (auto simp: RenderLoginScreen_Unlock_def)
next
  have "loginError (u\<lparr>currentState := Unlocked,
         loginError := ''New vault created. Click 'Save' to protect it.''\<rparr>)
       \<noteq> loginError (u\<lparr>loginError := ''Wrong password or corrupt vault file.''\<rparr>)"
    by simp
  then show "u\<lparr>currentState := Unlocked,
         loginError := ''New vault created. Click 'Save' to protect it.''\<rparr>
       \<noteq> u\<lparr>loginError := ''Wrong password or corrupt vault file.''\<rparr>"
    by (rule contrapos_nn) (rule arg_cong)
qed

theorem Unlock_tells_missing_from_undecryptable_witness:
  "RenderLoginScreen_Unlock toy_sodium toy_json no_files ''my_vault.db'' ''wrong-password''
       \<lparr>currentState = Locked, loginError = []\<rparr> empty_vault fresh
     = Inr (\<lparr>currentState = Unlocked,
              loginError = ''New vault created. Click 'Save' to protect it.''\<rparr>,
            empty_vault, fresh)
   \<and> RenderLoginScreen_Unlock toy_sodium toy_json saved_files ''my_vault.db'' ''wrong-password''
       \<lparr>currentState = Locked, loginError = []\<rparr> empty_vault fresh
     = Inr (\<lparr>currentState = Locked, loginError = ''Wrong password or corrupt vault file.''\<rparr>,
            empty_vault, \<lparr>rand_calls = 0, pwhash_calls = 1\<rparr>)"
  using Unlock_tells_missing_from_undecryptable
          [of no_files "''my_vault.db''" toy_sodium toy_json "''wrong-password''" empty_vault fresh
              "\<lparr>currentState = Locked, loginError = []\<rparr>"]
        Unlock_tells_missing_from_undecryptable
          [of saved_files "''my_vault.db''" toy_sodium toy_json "''wrong-password''" empty_vault fresh
              "\<lparr>currentState = Locked, loginError = []\<rparr>"]
  by (simp add: no_files_def saved_files_contents load_saved_wrong_password)

end
